theory Spec2Isabelle
  imports Main "HOL-Library.AList"
begin

section \<open>Data model: users, roles, permissions\<close>

text \<open>
  A user document carries its \<open>_id\<close> (absent when \<open>undefined\<close>) and its \<open>roles\<close>.
  A Mongoose reference field holds either the \<open>ObjectId\<close> of the referenced document or,
  after \<open>populate\<close>, the document itself (\<open>roles: Types.ObjectId[] | IRole[]\<close>,
  \<open>permissions: Types.ObjectId[] | IPermission[]\<close>). Both are JavaScript objects; an
  \<open>ObjectId\<close> has none of the properties \<open>name\<close>, \<open>resource\<close>, \<open>permissions\<close>, so
  reading them gives \<open>undefined\<close>, modelled as \<open>None\<close>.
\<close>

type_synonym objectid = string

record permission =
  permission_name :: string
  permission_resource :: string

datatype permission_ref = PermissionId objectid | PermissionDoc permission

record role =
  role_name :: string
  role_permissions :: "permission_ref list"

datatype role_ref = RoleId objectid | RoleDoc role

record user =
  user_id :: "objectid option"
  roles :: "role_ref list"

text \<open>\<open>typeof x === 'object' && x !== null\<close>: true of an \<open>ObjectId\<close> as of a document.\<close>

fun role_is_object :: "role_ref \<Rightarrow> bool" where
  "role_is_object (RoleId _) = True"
| "role_is_object (RoleDoc _) = True"

fun permission_is_object :: "permission_ref \<Rightarrow> bool" where
  "permission_is_object (PermissionId _) = True"
| "permission_is_object (PermissionDoc _) = True"

text \<open>Property reads \<open>role.name\<close>, \<open>role.permissions\<close>, \<open>permission.resource\<close>, \<open>permission.name\<close>.\<close>

fun role_ref_name :: "role_ref \<Rightarrow> string option" where
  "role_ref_name (RoleId _) = None"
| "role_ref_name (RoleDoc r) = Some (role_name r)"

fun role_ref_permissions :: "role_ref \<Rightarrow> permission_ref list option" where
  "role_ref_permissions (RoleId _) = None"
| "role_ref_permissions (RoleDoc r) = Some (role_permissions r)"

fun permission_ref_resource :: "permission_ref \<Rightarrow> string option" where
  "permission_ref_resource (PermissionId _) = None"
| "permission_ref_resource (PermissionDoc p) = Some (permission_resource p)"

fun permission_ref_name :: "permission_ref \<Rightarrow> string option" where
  "permission_ref_name (PermissionId _) = None"
| "permission_ref_name (PermissionDoc p) = Some (permission_name p)"

text \<open>String conversion inside a template literal: \<open>undefined\<close> prints as its name.\<close>

fun js_to_string :: "string option \<Rightarrow> string" where
  "js_to_string None = ''undefined''"
| "js_to_string (Some s) = s"

text \<open>The virtual \<open>code\<close> of a permission, \<open>`${resource}:${name}`\<close>.\<close>

definition permission_code :: "permission_ref \<Rightarrow> string" where
  "permission_code p =
     js_to_string (permission_ref_resource p) @ '':'' @ js_to_string (permission_ref_name p)"

section \<open>The permission resolver\<close>

subsection \<open>\<open>UserSchema.methods.hasRole\<close>\<close>

definition hasRole :: "user \<Rightarrow> string \<Rightarrow> bool" where
  "hasRole this roleName =
     (if roles this = [] then False
      else if role_is_object (hd (roles this))
        then list_ex (\<lambda>r. role_ref_name r = Some roleName) (roles this)
      else False)"

subsection \<open>\<open>UserSchema.methods.hasPermission\<close>\<close>

text \<open>The inner loop over one role's permissions; \<open>True\<close> is the early \<open>return true\<close>.\<close>

fun permissions_loop :: "string \<Rightarrow> permission_ref list \<Rightarrow> bool" where
  "permissions_loop permissionCode [] = False"
| "permissions_loop permissionCode (p # ps) =
     (if permission_is_object p \<and> permission_code p = permissionCode then True
      else permissions_loop permissionCode ps)"

text \<open>The outer loop over the roles; a role without \<open>permissions\<close> is skipped.\<close>

fun roles_loop :: "string \<Rightarrow> role_ref list \<Rightarrow> bool" where
  "roles_loop permissionCode [] = False"
| "roles_loop permissionCode (r # rs) =
     (case role_ref_permissions r of
        None \<Rightarrow> roles_loop permissionCode rs
      | Some ps \<Rightarrow>
          if permissions_loop permissionCode ps then True
          else roles_loop permissionCode rs)"

definition hasPermission :: "user \<Rightarrow> string \<Rightarrow> bool" where
  "hasPermission this permissionCode =
     (if roles this = [] then False
      else if role_is_object (hd (roles this)) then roles_loop permissionCode (roles this)
      else False)"

subsection \<open>The middlewares \<open>authorize\<close> and \<open>requirePermission\<close>\<close>

text \<open>
  A middleware ends by calling \<open>next()\<close> or \<open>next(error)\<close>, the error carrying a status
  code and a message: 401 is the denial Unauthenticated, 403 the denial Forbidden.
\<close>

datatype next_call = Next | NextError nat string

text \<open>\<open>s.split(sep)\<close> for a one-character separator.\<close>

fun js_split :: "char \<Rightarrow> string \<Rightarrow> string list" where
  "js_split sep [] = [[]]"
| "js_split sep (c # cs) =
     (if c = sep then [] # js_split sep cs
      else (case js_split sep cs of
              [] \<Rightarrow> [[c]]
            | w # ws \<Rightarrow> (c # w) # ws))"

text \<open>\<open>const [resource] = permission.split(':')\<close>, then \<open>`${resource}:manage`\<close>.\<close>

definition manage_code :: "string \<Rightarrow> string" where
  "manage_code permission =
     js_to_string (case js_split CHR '':'' permission of [] \<Rightarrow> None | resource # _ \<Rightarrow> Some resource)
       @ '':manage''"

definition authorize :: "string list \<Rightarrow> user option \<Rightarrow> next_call" where
  "authorize rs req_user =
     (case req_user of
        None \<Rightarrow> NextError 401 ''User not authenticated''
      | Some u \<Rightarrow>
          if hasRole u ''SuperAdmin'' then Next
          else if \<not> list_ex (\<lambda>r. hasRole u r) rs
            then NextError 403 ''Not authorized to access this route''
          else Next)"

definition requirePermission :: "string list \<Rightarrow> user option \<Rightarrow> next_call" where
  "requirePermission permissions req_user =
     (case req_user of
        None \<Rightarrow> NextError 401 ''User not authenticated''
      | Some u \<Rightarrow>
          if hasRole u ''SuperAdmin'' then Next
          else if list_ex (\<lambda>p. hasPermission u p) permissions then Next
          else if list_ex (\<lambda>p. hasPermission u (manage_code p) \<or> hasPermission u ''all:manage'')
                    permissions then Next
          else NextError 403 ''You do not have permission to perform this action'')"

section \<open>The connection registry and the notifier\<close>

subsection \<open>Sockets and the registry \<open>activeConnections\<close>\<close>

text \<open>
  An \<open>AuthenticatedSocket\<close>: its id, the token of \<open>socket.handshake.auth\<close> (absent when
  \<open>undefined\<close>) and the optional \<open>user\<close> the authentication middleware attaches.
\<close>

record socket =
  socket_id :: string
  handshake_token :: "string option"
  socket_user :: "user option"

text \<open>
  \<open>activeConnections\<close> is a JavaScript \<open>Map\<close> from strings to arrays of sockets, which
  iterates in insertion order: an association list with \<open>map_of\<close> for \<open>get\<close>/\<open>has\<close>,
  \<open>AList.update\<close> for \<open>set\<close> (in place for a present key, at the end for a new one) and
  \<open>AList.delete\<close> for \<open>delete\<close>.
\<close>

type_synonym registry = "(string \<times> socket list) list"

text \<open>The registry part of the connection handler: \<open>has\<close>/\<open>set\<close>, then \<open>get(userId)?.push(socket)\<close>.\<close>

definition register :: "registry \<Rightarrow> string \<Rightarrow> socket \<Rightarrow> registry" where
  "register ac userId socket =
     (let ac1 = (if map_of ac userId = None then AList.update userId [] ac else ac)
      in case map_of ac1 userId of
           None \<Rightarrow> ac1
         | Some sockets \<Rightarrow> AList.update userId (sockets @ [socket]) ac1)"

text \<open>The registry part of the disconnect handler: filter by socket id, then \<open>set\<close> or \<open>delete\<close>.\<close>

definition unregister :: "registry \<Rightarrow> string \<Rightarrow> string \<Rightarrow> registry" where
  "unregister ac userId socketId =
     (let userSockets = (case map_of ac userId of None \<Rightarrow> [] | Some sockets \<Rightarrow> sockets);
          updatedSockets = filter (\<lambda>s. socket_id s \<noteq> socketId) userSockets
      in if length updatedSockets > 0 then AList.update userId updatedSockets ac
         else AList.delete userId ac)"

text \<open>
  Sequences of the two operations, and the connections that are live after one: those
  registered and not unregistered since, as pairs of user id and socket id.
\<close>

datatype registry_op = Register string socket | Unregister string string

fun apply_op :: "registry \<Rightarrow> registry_op \<Rightarrow> registry" where
  "apply_op ac (Register userId socket) = register ac userId socket"
| "apply_op ac (Unregister userId socketId) = unregister ac userId socketId"

definition apply_ops :: "registry_op list \<Rightarrow> registry" where
  "apply_ops ops = foldl apply_op [] ops"

fun live_step :: "(string \<times> string) set \<Rightarrow> registry_op \<Rightarrow> (string \<times> string) set" where
  "live_step L (Register userId socket) = insert (userId, socket_id socket) L"
| "live_step L (Unregister userId socketId) = L - {(userId, socketId)}"

definition live :: "registry_op list \<Rightarrow> (string \<times> string) set" where
  "live ops = foldl live_step {} ops"

subsection \<open>\<open>notifyRoles\<close>\<close>

text \<open>
  The transport's \<open>s.emit(event, data)\<close> is a parameter: it returns (\<open>None\<close>) or throws an
  error with a message (\<open>Some message\<close>). A run of \<open>notifyRoles\<close> yields the \<open>emit\<close> calls it
  made, in order, and \<open>None\<close> when it returned or the error that left it.
\<close>

type_synonym 'd emit = "socket \<Rightarrow> string \<Rightarrow> 'd \<Rightarrow> string option"

type_synonym 'd emission = "socket \<times> string \<times> 'd"

text \<open>\<open>sockets.forEach((s) => s.emit(event, data))\<close>: an exception ends the loop.\<close>

fun emit_forEach :: "'d emit \<Rightarrow> string \<Rightarrow> 'd \<Rightarrow> socket list \<Rightarrow> 'd emission list \<times> string option" where
  "emit_forEach em event data [] = ([], None)"
| "emit_forEach em event data (s # ss) =
     (case em s event data of
        Some err \<Rightarrow> ([(s, event, data)], Some err)
      | None \<Rightarrow>
          (case emit_forEach em event data ss of
             (calls, outcome) \<Rightarrow> ((s, event, data) # calls, outcome)))"

text \<open>
  The role test written out in \<open>notifyRoles\<close> (it does not call \<open>hasRole\<close>):
  \<open>roles.some(role => socket.user.roles.some(userRole => ...))\<close>. The guard
  \<open>socket.user && socket.user.roles\<close> holds there: the user was tested just before, and
  \<open>roles\<close> is an array.
\<close>

definition notify_hasRole :: "user \<Rightarrow> string list \<Rightarrow> bool" where
  "notify_hasRole u rs =
     list_ex (\<lambda>r. list_ex (\<lambda>userRole. role_ref_name userRole = Some r
                                \<or> (role_is_object userRole \<and> role_ref_name userRole = Some r))
                          (roles u)) rs"

text \<open>The loop over \<open>activeConnections.entries()\<close>.\<close>

fun notify_loop :: "'d emit \<Rightarrow> string list \<Rightarrow> string \<Rightarrow> 'd \<Rightarrow> registry \<Rightarrow> 'd emission list \<times> string option" where
  "notify_loop em rs event data [] = ([], None)"
| "notify_loop em rs event data ((userId, sockets) # rest) =
     (case sockets of
        [] \<Rightarrow> notify_loop em rs event data rest
      | socket # _ \<Rightarrow>
          (case socket_user socket of
             None \<Rightarrow> notify_loop em rs event data rest
           | Some u \<Rightarrow>
               if notify_hasRole u rs then
                 (case emit_forEach em event data sockets of
                    (calls, Some err) \<Rightarrow> (calls, Some err)
                  | (calls, None) \<Rightarrow>
                      (case notify_loop em rs event data rest of
                         (calls', outcome) \<Rightarrow> (calls @ calls', outcome)))
               else notify_loop em rs event data rest))"

definition notifyRoles :: "'d emit \<Rightarrow> registry \<Rightarrow> string list \<Rightarrow> string \<Rightarrow> 'd \<Rightarrow> 'd emission list \<times> string option" where
  "notifyRoles em activeConnections rs event data = notify_loop em rs event data activeConnections"

text \<open>
  The users \<open>notifyRoles\<close> selects, in the words of its description: an entry matches when
  its first socket carries a user that has one of the roles; the targets are all the sockets
  of the matching entries.
\<close>

definition entry_matches :: "string list \<Rightarrow> string \<times> socket list \<Rightarrow> bool" where
  "entry_matches rs entry =
     (case snd entry of
        [] \<Rightarrow> False
      | socket # _ \<Rightarrow>
          (case socket_user socket of
             None \<Rightarrow> False
           | Some u \<Rightarrow> list_ex (\<lambda>r. hasRole u r) rs))"

definition notify_targets :: "registry \<Rightarrow> string list \<Rightarrow> socket list" where
  "notify_targets ac rs = concat (map snd (filter (entry_matches rs) ac))"

subsection \<open>The handshake: \<open>verifyAccessToken\<close> and the authentication middleware\<close>

text \<open>
  The decoded token carries an optional \<open>userId\<close> claim. The environment of the handshake is
  \<open>process.env.JWT_ACCESS_SECRET\<close>, the library's \<open>jwt.verify(token, secret)\<close>, which returns
  the payload or throws an error with a message (\<open>Inl\<close>), and the database's
  \<open>User.findById(id).populate(...)\<close>, which resolves to a user or to \<open>null\<close>, or rejects.
\<close>

record JwtPayload =
  payload_userId :: "string option"

record auth_env =
  JWT_ACCESS_SECRET :: "string option"
  jwt_verify :: "string \<Rightarrow> string \<Rightarrow> string + JwtPayload"
  findById :: "string \<Rightarrow> string + user option"

text \<open>A thrown error is \<open>Inl\<close> of its message.\<close>

definition verifyAccessToken :: "auth_env \<Rightarrow> string \<Rightarrow> string + JwtPayload" where
  "verifyAccessToken env token =
     (case JWT_ACCESS_SECRET env of
        None \<Rightarrow> Inl ''JWT_ACCESS_SECRET is not defined''
      | Some secret \<Rightarrow>
          if secret = [] then Inl ''JWT_ACCESS_SECRET is not defined''
          else (case jwt_verify env token secret of
                  Inl message \<Rightarrow> Inl (if message = [] then ''Invalid access token'' else message)
                | Inr decoded \<Rightarrow> Inr decoded))"

text \<open>
  The middleware of \<open>io.use\<close>: \<open>Inl message\<close> is \<open>next(new Error(message))\<close>, \<open>Inr socket\<close> is
  \<open>next()\<close> with the user attached. Whatever is thrown inside its \<open>try\<close> reaches the
  \<open>catch\<close>, which prefixes the error's message.
\<close>

definition auth_middleware :: "auth_env \<Rightarrow> socket \<Rightarrow> string + socket" where
  "auth_middleware env socket =
     (case handshake_token socket of
        None \<Rightarrow> Inl ''Authentication error: Token not provided''
      | Some token \<Rightarrow>
          if token = [] then Inl ''Authentication error: Token not provided''
          else (case verifyAccessToken env token of
                  Inl message \<Rightarrow> Inl (''Authentication error: '' @ message)
                | Inr decoded \<Rightarrow>
                    (case payload_userId decoded of
                       None \<Rightarrow> Inl ''Authentication error: Invalid token''
                     | Some uid \<Rightarrow>
                         if uid = [] then Inl ''Authentication error: Invalid token''
                         else (case findById env uid of
                                 Inl message \<Rightarrow> Inl (''Authentication error: '' @ message)
                               | Inr None \<Rightarrow> Inl ''Authentication error: User not found''
                               | Inr (Some u) \<Rightarrow> Inr (socket\<lparr>socket_user := Some u\<rparr>)))))"

subsection \<open>The server: connection handler, heartbeat, disconnect handler\<close>

text \<open>
  The state the handlers of \<open>initializeSocket\<close> work on: the registry, the interval timers
  that are set and not cleared (handle and the socket their callback pings), the next
  timer handle, the \<open>disconnect\<close> listeners installed (socket id, and the \<open>userId\<close> and
  \<open>pingInterval\<close> each closure captured), and the events emitted by the timer callbacks.
\<close>

record server =
  activeConnections :: registry
  intervals :: "(nat \<times> socket) list"
  next_interval :: nat
  disconnect_listeners :: "(string \<times> string \<times> nat) list"
  emitted :: "(socket \<times> string) list"

definition initial_server :: server where
  "initial_server =
     \<lparr>activeConnections = [], intervals = [], next_interval = 0,
      disconnect_listeners = [], emitted = []\<rparr>"

text \<open>
  \<open>io.on("connection", ...)\<close>: a socket without a user, or whose user has no \<open>_id\<close>, is
  disconnected (\<open>socket.disconnect()\<close>; no listener of this code is on it yet) and nothing
  is installed; otherwise the socket is registered, its ping timer set and its
  \<open>disconnect\<close> listener installed.
\<close>

definition connection_handler :: "server \<Rightarrow> socket \<Rightarrow> server" where
  "connection_handler st socket =
     (case socket_user socket of
        None \<Rightarrow> st
      | Some u \<Rightarrow>
          (case user_id u of
             None \<Rightarrow> st
           | Some userId \<Rightarrow>
               (let pingInterval = next_interval st
                in st\<lparr>activeConnections := register (activeConnections st) userId socket,
                      intervals := intervals st @ [(pingInterval, socket)],
                      next_interval := Suc pingInterval,
                      disconnect_listeners :=
                        disconnect_listeners st @ [(socket_id socket, userId, pingInterval)]\<rparr>)))"

text \<open>The \<open>disconnect\<close> listener: \<open>clearInterval(pingInterval)\<close> first, then the registry.\<close>

definition clearInterval :: "nat \<Rightarrow> server \<Rightarrow> server" where
  "clearInterval pingInterval st = st\<lparr>intervals := AList.delete pingInterval (intervals st)\<rparr>"

fun disconnect_handler :: "server \<Rightarrow> string \<times> string \<times> nat \<Rightarrow> server" where
  "disconnect_handler st (socketId, userId, pingInterval) =
     (let st1 = clearInterval pingInterval st
      in st1\<lparr>activeConnections := unregister (activeConnections st1) userId socketId\<rparr>)"

text \<open>The callback of \<open>setInterval\<close>: \<open>socket.emit("ping")\<close>.\<close>

definition ping_callback :: "server \<Rightarrow> socket \<Rightarrow> server" where
  "ping_callback st socket = st\<lparr>emitted := emitted st @ [(socket, ''ping'')]\<rparr>"

text \<open>
  The event loop runs one callback at a time, to completion: a connection, the
  \<open>disconnect\<close> event of a socket (which runs the listeners installed on it), or a timer
  that is due (whose callback runs only while the timer is set).
\<close>

datatype event = Connection socket | Disconnect string | IntervalFires nat

fun step :: "server \<Rightarrow> event \<Rightarrow> server" where
  "step st (Connection socket) = connection_handler st socket"
| "step st (Disconnect socketId) =
     foldl disconnect_handler st
       (filter (\<lambda>listener. fst listener = socketId) (disconnect_listeners st))"
| "step st (IntervalFires t) =
     (case map_of (intervals st) t of
        None \<Rightarrow> st
      | Some socket \<Rightarrow> ping_callback st socket)"

definition run :: "server \<Rightarrow> event list \<Rightarrow> server" where
  "run st es = foldl step st es"

text \<open>
  A handshake: the middleware decides; socket.io runs the connection handler only when the
  middleware called \<open>next()\<close> without an error, and refuses the connection with the
  error's message otherwise.
\<close>

datatype handshake_result = Accepted | Refused string

definition handshake :: "auth_env \<Rightarrow> server \<Rightarrow> socket \<Rightarrow> handshake_result \<times> server" where
  "handshake env st socket =
     (case auth_middleware env socket of
        Inl message \<Rightarrow> (Refused message, st)
      | Inr socket' \<Rightarrow> (Accepted, connection_handler st socket'))"

section \<open>Notions of the specification, and example data\<close>

text \<open>The names of the resolved roles of a user, and the codes of the resolved permissions
  of its resolved roles.\<close>

definition role_names :: "user \<Rightarrow> string list" where
  "role_names u = [role_name r. RoleDoc r \<leftarrow> roles u]"

definition resolved_permission_codes :: "user \<Rightarrow> string list" where
  "resolved_permission_codes u =
     [permission_resource d @ '':'' @ permission_name d.
        RoleDoc r \<leftarrow> roles u, PermissionDoc d \<leftarrow> role_permissions r]"

text \<open>A user loaded as the HTTP middleware loads it, roles and permissions populated.\<close>

definition careers_manage :: permission where
  "careers_manage = \<lparr>permission_name = ''manage'', permission_resource = ''careers''\<rparr>"

definition hrManagerUser :: user where
  "hrManagerUser =
     \<lparr>user_id = Some ''u1'',
      roles = [RoleDoc \<lparr>role_name = ''HRManager'',
                        role_permissions = [PermissionDoc careers_manage]\<rparr>]\<rparr>"

text \<open>
  Users loaded as the socket middleware loads them: \<open>populate({ path: "roles" })\<close> resolves
  the roles and leaves their permissions as \<open>ObjectId\<close>s.
\<close>

definition editorUser :: user where
  "editorUser =
     \<lparr>user_id = Some ''A'',
      roles = [RoleDoc \<lparr>role_name = ''Editor'', role_permissions = [PermissionId ''p1'']\<rparr>]\<rparr>"

definition superAdminUser :: user where
  "superAdminUser =
     \<lparr>user_id = Some ''B'',
      roles = [RoleDoc \<lparr>role_name = ''SuperAdmin'', role_permissions = []\<rparr>]\<rparr>"

definition sockA1 :: socket where
  "sockA1 = \<lparr>socket_id = ''a1'', handshake_token = Some ''tokA'', socket_user = Some editorUser\<rparr>"

definition sockB1 :: socket where
  "sockB1 = \<lparr>socket_id = ''b1'', handshake_token = Some ''tokB'', socket_user = Some superAdminUser\<rparr>"

definition sockB2 :: socket where
  "sockB2 = \<lparr>socket_id = ''b2'', handshake_token = Some ''tokB'', socket_user = Some superAdminUser\<rparr>"

definition example_registry :: registry where
  "example_registry = [(''A'', [sockA1]), (''B'', [sockB1, sockB2])]"

definition adminUser :: user where
  "adminUser =
     \<lparr>user_id = Some ''C'',
      roles = [RoleDoc \<lparr>role_name = ''Admin'', role_permissions = []\<rparr>]\<rparr>"

definition sockC1 :: socket where
  "sockC1 = \<lparr>socket_id = ''c1'', handshake_token = Some ''tokC'', socket_user = Some adminUser\<rparr>"

definition example_registry3 :: registry where
  "example_registry3 = [(''A'', [sockA1]), (''B'', [sockB1, sockB2]), (''C'', [sockC1])]"

text \<open>A transport that accepts every send, and one that throws on the socket \<open>b1\<close>.\<close>

definition accepting_emit :: "string emit" where
  "accepting_emit s event data = None"

definition failing_emit :: "string emit" where
  "failing_emit s event data = (if socket_id s = ''b1'' then Some ''transport failure'' else None)"

text \<open>A user loaded without \<open>populate\<close>: its roles are \<open>ObjectId\<close>s.\<close>

definition unpopulatedUser :: user where
  "unpopulatedUser = \<lparr>user_id = Some ''D'', roles = [RoleId ''r1'']\<rparr>"

text \<open>
  The \<open>enum\<close>s of \<open>name\<close> and \<open>resource\<close> in \<open>PermissionSchema\<close>, and the codes
  \<open>resource:name\<close> they form.
\<close>

definition permission_name_enum :: "string list" where
  "permission_name_enum =
     [''create'', ''read'', ''update'', ''delete'', ''manage'', ''approve'', ''publish'',
      ''assign'', ''view'']"

definition permission_resource_enum :: "string list" where
  "permission_resource_enum =
     [''blogs'', ''careers'', ''applications'', ''users'', ''contacts'', ''settings'', ''roles'',
      ''permissions'', ''all'', ''inquiries'', ''dashboard'']"

definition schema_codes :: "string list" where
  "schema_codes = [r @ '':'' @ a. r \<leftarrow> permission_resource_enum, a \<leftarrow> permission_name_enum]"

text \<open>A sequence of registrations and removals, and a lifecycle of the socket \<open>b1\<close>.\<close>

definition example_ops :: "registry_op list" where
  "example_ops = [Register ''B'' sockB1, Register ''A'' sockA1, Register ''B'' sockB2,
                  Unregister ''A'' ''a1'', Unregister ''B'' ''b1'']"

definition lifecycle_before :: "event list" where
  "lifecycle_before = [Connection sockB1, IntervalFires 0]"

definition lifecycle_after :: "event list" where
  "lifecycle_after = [IntervalFires 0, Connection sockA1, IntervalFires 1, IntervalFires 0]"

text \<open>A handshake with an expired token: \<open>jwt.verify\<close> throws \<open>jwt expired\<close>.\<close>

definition expired_verify :: "string \<Rightarrow> string \<Rightarrow> string + JwtPayload" where
  "expired_verify token secret = Inl ''jwt expired''"

definition no_user :: "string \<Rightarrow> string + user option" where
  "no_user uid = Inr None"

definition expired_env :: auth_env where
  "expired_env =
     \<lparr>JWT_ACCESS_SECRET = Some ''secret'', jwt_verify = expired_verify, findById = no_user\<rparr>"

definition sockNew :: socket where
  "sockNew = \<lparr>socket_id = ''n1'', handshake_token = Some ''expired-token'', socket_user = None\<rparr>"

section \<open>Invariants\<close>

text \<open>
  The registry against the live connections: the keys are distinct, a user without a live
  connection has no key, and a key holds a non-empty list of exactly the user's live
  sockets.
\<close>

definition registry_inv :: "registry \<Rightarrow> (string \<times> string) set \<Rightarrow> bool" where
  "registry_inv ac L \<longleftrightarrow>
     distinct (map fst ac) \<and>
     (\<forall>userId. case map_of ac userId of
        None \<Rightarrow> (\<forall>socketId. (userId, socketId) \<notin> L)
      | Some sockets \<Rightarrow>
          sockets \<noteq> [] \<and> socket_id ` set sockets = {socketId. (userId, socketId) \<in> L})"

text \<open>
  Every timer that is set belongs to a \<open>disconnect\<close> listener of the socket it pings; and
  no timer that is set pings a given socket.
\<close>

definition timers_covered :: "server \<Rightarrow> bool" where
  "timers_covered st \<longleftrightarrow>
     (\<forall>(t, s)\<in>set (intervals st).
        \<exists>userId. (socket_id s, userId, t) \<in> set (disconnect_listeners st))"

definition no_timer :: "string \<Rightarrow> server \<Rightarrow> bool" where
  "no_timer socketId st \<longleftrightarrow> (\<forall>(t, s)\<in>set (intervals st). socket_id s \<noteq> socketId)"

section \<open>The permission resolver: properties\<close>

lemma role_is_object_True [simp]: "role_is_object r"
  by (cases r) simp_all

lemma permission_is_object_True [simp]: "permission_is_object p"
  by (cases p) simp_all

lemma hasRole_iff: "hasRole u r \<longleftrightarrow> (\<exists>x\<in>set (roles u). role_ref_name x = Some r)"
  by (auto simp: hasRole_def list_ex_iff)

lemma set_role_names: "set (role_names u) = {n. \<exists>x\<in>set (roles u). role_ref_name x = Some n}"
proof -
  have "\<And>n. (\<exists>x\<in>set (roles u). role_ref_name x = Some n) \<longleftrightarrow>
      (\<exists>r. RoleDoc r \<in> set (roles u) \<and> role_name r = n)"
    by (metis option.distinct(1) option.inject role_ref.exhaust role_ref_name.simps)
  then show ?thesis
    by (auto simp: role_names_def split: role_ref.splits)
qed

lemma hasRole_role_names: "hasRole u r \<longleftrightarrow> r \<in> set (role_names u)"
  by (simp add: hasRole_iff set_role_names)

lemma permissions_loop_iff:
  "permissions_loop code ps \<longleftrightarrow> (\<exists>p\<in>set ps. permission_code p = code)"
  by (induction ps) auto

lemma roles_loop_iff:
  "roles_loop code rs \<longleftrightarrow>
     (\<exists>r\<in>set rs. \<exists>ps. role_ref_permissions r = Some ps \<and> (\<exists>p\<in>set ps. permission_code p = code))"
  by (induction rs) (auto simp: permissions_loop_iff split: option.splits)

lemma hasPermission_iff:
  "hasPermission u code \<longleftrightarrow>
     (\<exists>r\<in>set (roles u). \<exists>ps. role_ref_permissions r = Some ps \<and> (\<exists>p\<in>set ps. permission_code p = code))"
  by (auto simp: hasPermission_def roles_loop_iff)

text \<open>The first piece of \<open>split(':')\<close> is the text before the first colon.\<close>

lemma js_split_nonempty: "js_split sep s \<noteq> []"
  by (induction s) (auto split: list.splits)

lemma hd_js_split: "hd (js_split sep s) = takeWhile (\<lambda>c. c \<noteq> sep) s"
  by (induction s) (auto split: list.splits simp: js_split_nonempty)

lemma manage_code_eq: "manage_code p = takeWhile (\<lambda>c. c \<noteq> CHR '':'') p @ '':manage''"
  using hd_js_split[of "CHR '':''" p] js_split_nonempty[of "CHR '':''" p]
  by (cases "js_split CHR '':'' p") (auto simp: manage_code_def)

lemma manage_code_resource_action:
  "CHR '':'' \<notin> set resource \<Longrightarrow> manage_code (resource @ '':'' @ action) = resource @ '':manage''"
  by (induction resource) (auto simp: manage_code_eq)

lemma set_resolved_permission_codes:
  "set (resolved_permission_codes u) =
     {c. \<exists>r d. RoleDoc r \<in> set (roles u) \<and> PermissionDoc d \<in> set (role_permissions r)
           \<and> c = permission_resource d @ '':'' @ permission_name d}"
  by (auto simp: resolved_permission_codes_def split: role_ref.splits permission_ref.splits)

text \<open>
  For every code but \<open>undefined:undefined\<close>, \<open>hasPermission\<close> holds exactly of the codes of
  the resolved permissions of the resolved roles; roles left unresolved grant nothing.
\<close>

lemma hasPermission_resolved:
  assumes "code \<noteq> ''undefined:undefined''"
  shows "hasPermission u code \<longleftrightarrow> code \<in> set (resolved_permission_codes u)"
proof
  assume "hasPermission u code"
  then obtain r ps p where r: "r \<in> set (roles u)" "role_ref_permissions r = Some ps"
      "p \<in> set ps" "permission_code p = code"
    by (auto simp: hasPermission_iff)
  from r(2) obtain rd where rd: "r = RoleDoc rd" "ps = role_permissions rd" by (cases r) auto
  from r(4) assms obtain d where "p = PermissionDoc d"
    by (cases p) (auto simp: permission_code_def)
  with r rd show "code \<in> set (resolved_permission_codes u)"
    by (auto simp: set_resolved_permission_codes permission_code_def)
next
  assume "code \<in> set (resolved_permission_codes u)"
  then obtain r d where "RoleDoc r \<in> set (roles u)" "PermissionDoc d \<in> set (role_permissions r)"
     "code = permission_resource d @ '':'' @ permission_name d"
    by (auto simp: set_resolved_permission_codes)
  then show "hasPermission u code"
    unfolding hasPermission_iff
    by (intro bexI[of _ "RoleDoc r"] exI[of _ "role_permissions r"] conjI bexI[of _ "PermissionDoc d"])
       (auto simp: permission_code_def)
qed

lemma hasPermission_unresolved_roles:
  assumes "\<forall>r\<in>set (roles u). \<exists>i. r = RoleId i"
  shows "\<not> hasPermission u code"
  using assms by (fastforce simp: hasPermission_iff)

lemma schema_code_defined: "c \<in> set schema_codes \<Longrightarrow> c \<noteq> ''undefined:undefined''"
  by (auto simp: schema_codes_def permission_resource_enum_def permission_name_enum_def)

lemma manage_code_defined: "x @ '':manage'' \<noteq> ''undefined:undefined''"
proof
  assume "x @ '':manage'' = ''undefined:undefined''"
  then have "last (x @ '':manage'') = last ''undefined:undefined''" by simp
  then show False by simp
qed

lemma hasPermission_unresolved_permissions:
  assumes "code \<noteq> ''undefined:undefined''"
    and "\<forall>r. RoleDoc r \<in> set (roles u) \<longrightarrow> (\<forall>p\<in>set (role_permissions r). \<exists>i. p = PermissionId i)"
  shows "\<not> hasPermission u code"
proof
  assume "hasPermission u code"
  with assms(1) have "code \<in> set (resolved_permission_codes u)"
    by (simp add: hasPermission_resolved)
  then obtain r d where "RoleDoc r \<in> set (roles u)" "PermissionDoc d \<in> set (role_permissions r)"
    by (auto simp: set_resolved_permission_codes)
  with assms(2) show False by fastforce
qed

text \<open>
  Claim C1. \<open>requirePermission\<close> answers 401 (Unauthenticated) without a user. With a user
  it calls \<open>next()\<close> exactly when the user has the role SuperAdmin, or has one of the listed
  permissions, or, for one of the listed codes, has the \<open>manage\<close> permission of its
  resource (the text before its first colon) or \<open>all:manage\<close>; in every other case it
  answers 403 (Forbidden). For a list of codes without the text \<open>undefined:undefined\<close>
  (no code of the schema is that text: \<open>schema_code_defined\<close>), having a role is having a
  resolved role of that name, and having a permission is having a resolved role with a
  resolved permission of that code.
\<close>

theorem requirePermission_decision:
  "requirePermission P None = NextError 401 ''User not authenticated'' \<and>
   requirePermission P (Some p) =
     (if hasRole p ''SuperAdmin''
         \<or> (\<exists>c\<in>set P. hasPermission p c)
         \<or> (\<exists>c\<in>set P. hasPermission p (takeWhile (\<lambda>x. x \<noteq> CHR '':'') c @ '':manage'')
                         \<or> hasPermission p ''all:manage'')
      then Next
      else NextError 403 ''You do not have permission to perform this action'') \<and>
   (''undefined:undefined'' \<notin> set P \<longrightarrow>
      requirePermission P (Some p) =
        (if ''SuperAdmin'' \<in> set (role_names p)
            \<or> (\<exists>c\<in>set P. c \<in> set (resolved_permission_codes p))
            \<or> (\<exists>c\<in>set P. takeWhile (\<lambda>x. x \<noteq> CHR '':'') c @ '':manage''
                               \<in> set (resolved_permission_codes p)
                            \<or> ''all:manage'' \<in> set (resolved_permission_codes p))
         then Next
         else NextError 403 ''You do not have permission to perform this action''))"
proof (intro conjI impI)
  show "requirePermission P None = NextError 401 ''User not authenticated''"
    by (simp add: requirePermission_def)
  show d: "requirePermission P (Some p) =
     (if hasRole p ''SuperAdmin''
         \<or> (\<exists>c\<in>set P. hasPermission p c)
         \<or> (\<exists>c\<in>set P. hasPermission p (takeWhile (\<lambda>x. x \<noteq> CHR '':'') c @ '':manage'')
                         \<or> hasPermission p ''all:manage'')
      then Next
      else NextError 403 ''You do not have permission to perform this action'')"
    by (simp add: requirePermission_def list_ex_iff manage_code_eq)
  assume P: "''undefined:undefined'' \<notin> set P"
  have 1: "(\<exists>c\<in>set P. hasPermission p c) \<longleftrightarrow> (\<exists>c\<in>set P. c \<in> set (resolved_permission_codes p))"
  proof -
    have "\<And>c. c \<in> set P \<Longrightarrow> hasPermission p c \<longleftrightarrow> c \<in> set (resolved_permission_codes p)"
      using P by (intro hasPermission_resolved) auto
    then show ?thesis by blast
  qed
  have 2: "hasPermission p (x @ '':manage'') \<longleftrightarrow> x @ '':manage'' \<in> set (resolved_permission_codes p)" for x
    by (rule hasPermission_resolved) (rule manage_code_defined)
  have 3: "hasPermission p ''all:manage'' \<longleftrightarrow> ''all:manage'' \<in> set (resolved_permission_codes p)"
    by (rule hasPermission_resolved) simp
  show "requirePermission P (Some p) =
        (if ''SuperAdmin'' \<in> set (role_names p)
            \<or> (\<exists>c\<in>set P. c \<in> set (resolved_permission_codes p))
            \<or> (\<exists>c\<in>set P. takeWhile (\<lambda>x. x \<noteq> CHR '':'') c @ '':manage''
                               \<in> set (resolved_permission_codes p)
                            \<or> ''all:manage'' \<in> set (resolved_permission_codes p))
         then Next
         else NextError 403 ''You do not have permission to perform this action'')"
    unfolding d 1 2 3 hasRole_role_names ..
qed

theorem requirePermission_decision_witness:
  "''undefined:undefined'' \<notin> set [''careers:create'']
   \<and> ''careers:create'' \<in> set schema_codes
   \<and> requirePermission [''careers:create''] (Some hrManagerUser) = Next
   \<and> role_names hrManagerUser = [''HRManager'']
   \<and> resolved_permission_codes hrManagerUser = [''careers:manage'']
   \<and> requirePermission [''blogs:create''] (Some hrManagerUser)
       = NextError 403 ''You do not have permission to perform this action''"
proof -
  have h: "''undefined:undefined'' \<notin> set [''careers:create'']" by simp
  have h2: "''undefined:undefined'' \<notin> set [''blogs:create'']" by simp
  have s: "''careers:create'' \<in> set schema_codes"
    by (simp add: schema_codes_def permission_resource_enum_def permission_name_enum_def)
  have n: "role_names hrManagerUser = [''HRManager'']"
    by (simp add: role_names_def hrManagerUser_def)
  have r: "resolved_permission_codes hrManagerUser = [''careers:manage'']"
    by (simp add: resolved_permission_codes_def hrManagerUser_def careers_manage_def)
  from requirePermission_decision[of "[''careers:create'']" hrManagerUser,
         THEN conjunct2, THEN conjunct2, rule_format, OF h] n r
  have 1: "requirePermission [''careers:create''] (Some hrManagerUser) = Next"
    by simp
  from requirePermission_decision[of "[''blogs:create'']" hrManagerUser,
         THEN conjunct2, THEN conjunct2, rule_format, OF h2] n r
  have 2: "requirePermission [''blogs:create''] (Some hrManagerUser)
       = NextError 403 ''You do not have permission to perform this action''"
    by simp
  from h s 1 n r 2 show ?thesis by simp
qed

text \<open>
  Claim C2. \<open>authorize\<close> answers 401 (Unauthenticated) without a user. With a user it
  calls \<open>next()\<close> exactly when the user has the role SuperAdmin or \<open>hasRole\<close> holds of one
  of the listed roles, that is, when the names of its resolved roles meet the list; in
  every other case it answers 403 (Forbidden).
\<close>

theorem authorize_decision:
  "authorize R None = NextError 401 ''User not authenticated'' \<and>
   authorize R (Some p) =
     (if hasRole p ''SuperAdmin'' \<or> (\<exists>r\<in>set R. hasRole p r) then Next
      else NextError 403 ''Not authorized to access this route'') \<and>
   (hasRole p ''SuperAdmin'' \<longleftrightarrow> ''SuperAdmin'' \<in> set (role_names p)) \<and>
   ((\<exists>r\<in>set R. hasRole p r) \<longleftrightarrow> set (role_names p) \<inter> set R \<noteq> {})"
  by (auto simp: authorize_def list_ex_iff hasRole_role_names)

theorem authorize_decision_witness:
  "authorize [''Admin'', ''Editor''] (Some editorUser) = Next
   \<and> authorize [''Admin''] (Some editorUser) = NextError 403 ''Not authorized to access this route''
   \<and> role_names editorUser = [''Editor'']"
  using authorize_decision[of "[''Admin'', ''Editor'']" editorUser]
        authorize_decision[of "[''Admin'']" editorUser]
  by (simp add: hasRole_def editorUser_def role_names_def)

text \<open>
  Claim C8. For every code other than the text \<open>undefined:undefined\<close> (no code of the
  schema is that text: \<open>schema_code_defined\<close>), \<open>hasPermission\<close> is true exactly when a
  resolved role of the user has a resolved permission whose \<open>resource:name\<close> is the code;
  it is false when the roles are unresolved references, and false when the permissions
  of the resolved roles are unresolved references. It is a total function: no path of it
  throws.
\<close>

theorem hasPermission_characterisation:
  assumes "code \<noteq> ''undefined:undefined''"
  shows "(hasPermission u code \<longleftrightarrow>
            (\<exists>r d. RoleDoc r \<in> set (roles u) \<and> PermissionDoc d \<in> set (role_permissions r)
                   \<and> permission_resource d @ '':'' @ permission_name d = code)) \<and>
         (hasPermission u code \<longleftrightarrow> code \<in> set (resolved_permission_codes u)) \<and>
         ((\<forall>r\<in>set (roles u). \<exists>i. r = RoleId i) \<longrightarrow> \<not> hasPermission u code) \<and>
         ((\<forall>r. RoleDoc r \<in> set (roles u) \<longrightarrow>
              (\<forall>p\<in>set (role_permissions r). \<exists>i. p = PermissionId i)) \<longrightarrow>
            \<not> hasPermission u code)"
proof (intro conjI impI)
  show 2: "hasPermission u code \<longleftrightarrow> code \<in> set (resolved_permission_codes u)"
    using assms by (rule hasPermission_resolved)
  show "hasPermission u code \<longleftrightarrow>
            (\<exists>r d. RoleDoc r \<in> set (roles u) \<and> PermissionDoc d \<in> set (role_permissions r)
                   \<and> permission_resource d @ '':'' @ permission_name d = code)"
    unfolding 2 by (auto simp: set_resolved_permission_codes)
next
  assume "\<forall>r\<in>set (roles u). \<exists>i. r = RoleId i"
  then show "\<not> hasPermission u code" by (rule hasPermission_unresolved_roles)
next
  assume "\<forall>r. RoleDoc r \<in> set (roles u) \<longrightarrow> (\<forall>p\<in>set (role_permissions r). \<exists>i. p = PermissionId i)"
  with assms show "\<not> hasPermission u code" by (rule hasPermission_unresolved_permissions)
qed

theorem hasPermission_characterisation_witness:
  "''careers:manage'' \<in> set schema_codes
   \<and> hasPermission hrManagerUser ''careers:manage''
   \<and> resolved_permission_codes hrManagerUser = [''careers:manage'']
   \<and> \<not> hasPermission hrManagerUser ''careers:create''
   \<and> \<not> hasPermission unpopulatedUser ''careers:manage''
   \<and> \<not> hasPermission editorUser ''careers:manage''"
proof -
  have c: "''careers:manage'' \<noteq> ''undefined:undefined''" by simp
  have c2: "''careers:create'' \<noteq> ''undefined:undefined''" by simp
  have s: "''careers:manage'' \<in> set schema_codes"
    by (simp add: schema_codes_def permission_resource_enum_def permission_name_enum_def)
  have r: "resolved_permission_codes hrManagerUser = [''careers:manage'']"
    by (simp add: resolved_permission_codes_def hrManagerUser_def careers_manage_def)
  have ur: "\<forall>r\<in>set (roles unpopulatedUser). \<exists>i. r = RoleId i"
    by (simp add: unpopulatedUser_def)
  have up: "\<forall>r. RoleDoc r \<in> set (roles editorUser) \<longrightarrow>
              (\<forall>p\<in>set (role_permissions r). \<exists>i. p = PermissionId i)"
    by (auto simp: editorUser_def)
  from hasPermission_characterisation[OF c, of hrManagerUser]
  have "hasPermission hrManagerUser ''careers:manage''
      \<longleftrightarrow> ''careers:manage'' \<in> set (resolved_permission_codes hrManagerUser)"
    by blast
  with r have 1: "hasPermission hrManagerUser ''careers:manage''" by simp
  from hasPermission_characterisation[OF c2, of hrManagerUser]
  have "hasPermission hrManagerUser ''careers:create''
      \<longleftrightarrow> ''careers:create'' \<in> set (resolved_permission_codes hrManagerUser)"
    by blast
  with r have 2: "\<not> hasPermission hrManagerUser ''careers:create''" by simp
  from hasPermission_characterisation[OF c, of unpopulatedUser] ur
  have 3: "\<not> hasPermission unpopulatedUser ''careers:manage''" by blast
  from hasPermission_characterisation[OF c, of editorUser] up
  have 4: "\<not> hasPermission editorUser ''careers:manage''" by blast
  from s 1 r 2 3 4 show ?thesis by simp
qed

text \<open>
  The text \<open>undefined:undefined\<close> is why the schema matters: the test
  \<open>typeof permission === 'object'\<close> holds of an \<open>ObjectId\<close> too, whose \<open>resource\<close> and
  \<open>name\<close> are \<open>undefined\<close>, so at that text \<open>hasPermission\<close> is true of a user whose
  permissions are unresolved references.
\<close>

lemma hasPermission_undefined_text:
  "hasPermission editorUser ''undefined:undefined'' \<and> resolved_permission_codes editorUser = []"
  by (simp add: hasPermission_def editorUser_def permission_code_def resolved_permission_codes_def)

text \<open>
  Claim C10. With an empty list of requirements, \<open>authorize\<close> and \<open>requirePermission\<close>
  answer 403 (Forbidden) to a user without the role SuperAdmin, and call \<open>next()\<close> for a
  user with it.
\<close>

theorem empty_requirements:
  "authorize [] (Some p) =
     (if hasRole p ''SuperAdmin'' then Next
      else NextError 403 ''Not authorized to access this route'') \<and>
   requirePermission [] (Some p) =
     (if hasRole p ''SuperAdmin'' then Next
      else NextError 403 ''You do not have permission to perform this action'')"
  by (simp add: authorize_def requirePermission_def)

theorem empty_requirements_witness:
  "\<not> hasRole hrManagerUser ''SuperAdmin''
   \<and> authorize [] (Some hrManagerUser) = NextError 403 ''Not authorized to access this route''
   \<and> requirePermission [] (Some hrManagerUser)
       = NextError 403 ''You do not have permission to perform this action''
   \<and> hasRole superAdminUser ''SuperAdmin''
   \<and> authorize [] (Some superAdminUser) = Next
   \<and> requirePermission [] (Some superAdminUser) = Next"
  using empty_requirements[of hrManagerUser] empty_requirements[of superAdminUser]
  by (simp add: hasRole_def hrManagerUser_def superAdminUser_def)

section \<open>The notifier: properties\<close>

lemma notify_hasRole_iff: "notify_hasRole u rs \<longleftrightarrow> list_ex (\<lambda>r. hasRole u r) rs"
  by (auto simp: notify_hasRole_def hasRole_def list_ex_iff)

lemma emit_forEach_append:
  "emit_forEach em ev d (xs @ ys) =
     (case emit_forEach em ev d xs of
        (calls, Some err) \<Rightarrow> (calls, Some err)
      | (calls, None) \<Rightarrow>
          (case emit_forEach em ev d ys of (calls', outcome) \<Rightarrow> (calls @ calls', outcome)))"
  by (induction xs) (auto split: option.splits prod.splits)

lemma notify_targets_Nil [simp]: "notify_targets [] rs = []"
  by (simp add: notify_targets_def)

lemma notify_targets_Cons:
  "notify_targets (e # ac) rs = (if entry_matches rs e then snd e else []) @ notify_targets ac rs"
  by (simp add: notify_targets_def)

text \<open>The two nested loops are one pass over the sockets of the matching entries.\<close>

lemma notify_loop_forEach:
  "notify_loop em rs ev d ac = emit_forEach em ev d (notify_targets ac rs)"
proof (induction ac)
  case Nil
  show ?case by simp
next
  case (Cons e ac)
  obtain userId sockets where e: "e = (userId, sockets)" by (cases e)
  show ?case
  proof (cases "entry_matches rs e")
    case True
    then obtain socket rest u where s: "sockets = socket # rest" "socket_user socket = Some u"
        "notify_hasRole u rs"
      by (auto simp: e entry_matches_def notify_hasRole_iff split: list.splits option.splits)
    show ?thesis
      using True s Cons.IH
      by (simp only: e notify_targets_Cons emit_forEach_append)
         (simp split: prod.splits option.splits)
  next
    case False
    then have "notify_loop em rs ev d (e # ac) = notify_loop em rs ev d ac"
      by (auto simp: e entry_matches_def notify_hasRole_iff split: list.splits option.splits)
    with False Cons.IH show ?thesis
      by (simp add: notify_targets_Cons)
  qed
qed

lemma notifyRoles_forEach:
  "notifyRoles em ac rs ev d = emit_forEach em ev d (notify_targets ac rs)"
  by (simp add: notifyRoles_def notify_loop_forEach)

lemma emit_forEach_returns:
  "snd (emit_forEach em ev d xs) = None \<longleftrightarrow> (\<forall>s\<in>set xs. em s ev d = None)"
  by (induction xs) (auto split: option.splits prod.splits)

lemma emit_forEach_all:
  "\<forall>s\<in>set xs. em s ev d = None \<Longrightarrow> emit_forEach em ev d xs = (map (\<lambda>s. (s, ev, d)) xs, None)"
  by (induction xs) auto

lemma emit_forEach_throws:
  "\<forall>s\<in>set pre. em s ev d = None \<Longrightarrow> em s ev d = Some err \<Longrightarrow>
   emit_forEach em ev d (pre @ s # post) = (map (\<lambda>s. (s, ev, d)) (pre @ [s]), Some err)"
  by (induction pre) auto


lemma set_notify_targets:
  "s \<in> set (notify_targets ac rs) \<longleftrightarrow>
     (\<exists>(userId, sockets)\<in>set ac. s \<in> set sockets \<and> sockets \<noteq> [] \<and>
        (\<exists>u. socket_user (hd sockets) = Some u \<and> (\<exists>r\<in>set rs. hasRole u r)))"
proof -
  have m: "entry_matches rs (userId, sockets) \<longleftrightarrow>
      sockets \<noteq> [] \<and> (\<exists>u. socket_user (hd sockets) = Some u \<and> (\<exists>r\<in>set rs. hasRole u r))"
    for userId sockets
    by (cases sockets) (auto simp: entry_matches_def list_ex_iff split: option.splits)
  have "s \<in> set (notify_targets ac rs) \<longleftrightarrow>
      (\<exists>e\<in>set ac. entry_matches rs e \<and> s \<in> set (snd e))"
    by (auto simp: notify_targets_def) blast
  also have "\<dots> \<longleftrightarrow> (\<exists>(userId, sockets)\<in>set ac. s \<in> set sockets \<and> entry_matches rs (userId, sockets))"
    by auto
  finally show ?thesis
    by (simp only: m)
qed

lemmas example_defs = example_registry_def example_registry3_def sockA1_def sockB1_def sockB2_def
  sockC1_def editorUser_def superAdminUser_def adminUser_def accepting_emit_def failing_emit_def
  notifyRoles_def notify_hasRole_def

text \<open>
  Claim C3, as stated for every call, fails: the loop has no \<open>try\<close> around \<open>s.emit\<close>. With a
  transport that throws on \<open>b1\<close>, the socket \<open>b2\<close> of the same user, whose first socket
  carries a user with the role, gets no \<open>emit\<close> call.
\<close>

theorem notifyRoles_delivery_counterexample:
  "(''B'', [sockB1, sockB2]) \<in> set example_registry3
   \<and> socket_user sockB1 = Some superAdminUser
   \<and> hasRole superAdminUser ''SuperAdmin''
   \<and> fst (notifyRoles failing_emit example_registry3 [''SuperAdmin''] ''notification:blog'' ''X'')
       = [(sockB1, ''notification:blog'', ''X'')]
   \<and> snd (notifyRoles failing_emit example_registry3 [''SuperAdmin''] ''notification:blog'' ''X'')
       = Some ''transport failure''"
  by (simp add: example_defs hasRole_def)

text \<open>
  Claim C3, amended. In a call of \<open>notifyRoles\<close> that returns (no \<open>emit\<close> call throws),
  \<open>emit\<close> is called on a socket, with the event and the payload of the call, exactly when
  the socket is in the list of a registry entry whose list is non-empty and whose first
  socket carries a user that has one of the roles: every socket of a matching entry, and
  no other.
\<close>

theorem notifyRoles_delivery:
  assumes "snd (notifyRoles em ac rs ev d) = None"
  shows "(s, ev', d') \<in> set (fst (notifyRoles em ac rs ev d)) \<longleftrightarrow>
           ev' = ev \<and> d' = d \<and>
           (\<exists>(userId, sockets)\<in>set ac. s \<in> set sockets \<and> sockets \<noteq> [] \<and>
              (\<exists>u. socket_user (hd sockets) = Some u \<and> (\<exists>r\<in>set rs. hasRole u r)))"
proof -
  from assms have "\<forall>s\<in>set (notify_targets ac rs). em s ev d = None"
    by (simp add: notifyRoles_forEach emit_forEach_returns)
  then have "fst (notifyRoles em ac rs ev d) = map (\<lambda>s. (s, ev, d)) (notify_targets ac rs)"
    by (simp add: notifyRoles_forEach emit_forEach_all)
  then have "(s, ev', d') \<in> set (fst (notifyRoles em ac rs ev d)) \<longleftrightarrow>
      ev' = ev \<and> d' = d \<and> s \<in> set (notify_targets ac rs)"
    by auto
  then show ?thesis
    by (simp only: set_notify_targets)
qed

theorem notifyRoles_delivery_witness:
  "snd (notifyRoles accepting_emit example_registry [''SuperAdmin'', ''Admin''] ''notification:blog'' ''X'') = None
   \<and> (sockB2, ''notification:blog'', ''X'')
        \<in> set (fst (notifyRoles accepting_emit example_registry [''SuperAdmin'', ''Admin'']
                      ''notification:blog'' ''X''))
   \<and> (sockA1, ''notification:blog'', ''X'')
        \<notin> set (fst (notifyRoles accepting_emit example_registry [''SuperAdmin'', ''Admin'']
                      ''notification:blog'' ''X''))"
proof -
  have h: "snd (notifyRoles accepting_emit example_registry [''SuperAdmin'', ''Admin'']
                  ''notification:blog'' ''X'') = None"
    by (simp add: example_defs)
  have b: "\<exists>(userId, sockets)\<in>set example_registry. sockB2 \<in> set sockets \<and> sockets \<noteq> [] \<and>
              (\<exists>u. socket_user (hd sockets) = Some u \<and> (\<exists>r\<in>set [''SuperAdmin'', ''Admin'']. hasRole u r))"
    by (simp add: example_registry_def sockB1_def sockB2_def superAdminUser_def hasRole_def)
  have a: "\<not> (\<exists>(userId, sockets)\<in>set example_registry. sockA1 \<in> set sockets \<and> sockets \<noteq> [] \<and>
              (\<exists>u. socket_user (hd sockets) = Some u \<and> (\<exists>r\<in>set [''SuperAdmin'', ''Admin'']. hasRole u r)))"
    by (simp add: example_registry_def sockA1_def sockB1_def sockB2_def superAdminUser_def editorUser_def hasRole_def)
  from h b a notifyRoles_delivery[OF h, of sockB2 "''notification:blog''" "''X''"]
    notifyRoles_delivery[OF h, of sockA1 "''notification:blog''" "''X''"]
  show ?thesis by simp
qed

text \<open>
  Claim C7, as stated, fails: \<open>notifyRoles\<close> has no \<open>try\<close> around \<open>s.emit\<close>. With a
  transport that throws on \<open>b1\<close>, the call ends with that error after the one \<open>emit\<close> call,
  and neither \<open>b2\<close> (same user) nor \<open>c1\<close> (next user) is attempted.
\<close>

theorem notifyRoles_throw_counterexample:
  "notifyRoles failing_emit example_registry3 [''SuperAdmin'', ''Admin''] ''notification:blog'' ''X''
     = ([(sockB1, ''notification:blog'', ''X'')], Some ''transport failure'')
   \<and> notify_targets example_registry3 [''SuperAdmin'', ''Admin''] = [sockB1, sockB2, sockC1]"
  by (simp add: example_defs notify_targets_def entry_matches_def hasRole_def)

text \<open>
  Claim C7, amended. \<open>notifyRoles\<close> returns when every \<open>emit\<close> call returns, and has then
  called \<open>emit\<close> on every socket of every matching entry, in order. When an \<open>emit\<close> call
  throws, the error leaves \<open>notifyRoles\<close> at once: \<open>emit\<close> has been called on the sockets
  up to the throwing one, and on none after it.
\<close>

theorem notifyRoles_propagates:
  "((\<forall>s\<in>set (notify_targets ac rs). em s ev d = None) \<longrightarrow>
      notifyRoles em ac rs ev d = (map (\<lambda>s. (s, ev, d)) (notify_targets ac rs), None)) \<and>
   (notify_targets ac rs = pre @ s # post \<and> (\<forall>x\<in>set pre. em x ev d = None) \<and> em s ev d = Some err \<longrightarrow>
      notifyRoles em ac rs ev d = (map (\<lambda>x. (x, ev, d)) (pre @ [s]), Some err))"
  by (simp add: notifyRoles_forEach emit_forEach_all emit_forEach_throws)

theorem notifyRoles_propagates_witness:
  "notifyRoles accepting_emit example_registry3 [''SuperAdmin'', ''Admin''] ''notification:blog'' ''X''
     = (map (\<lambda>s. (s, ''notification:blog'', ''X'')) [sockB1, sockB2, sockC1], None)
   \<and> notifyRoles failing_emit example_registry3 [''Admin''] ''notification:blog'' ''X''
     = (map (\<lambda>s. (s, ''notification:blog'', ''X'')) [sockC1], None)
   \<and> notifyRoles failing_emit example_registry3 [''SuperAdmin'', ''Admin''] ''n'' ''X''
     = (map (\<lambda>s. (s, ''n'', ''X'')) ([] @ [sockB1]), Some ''transport failure'')"
proof -
  have t: "notify_targets example_registry3 [''SuperAdmin'', ''Admin''] = [] @ sockB1 # [sockB2, sockC1]"
    by (simp add: example_defs notify_targets_def entry_matches_def hasRole_def)
  have t2: "notify_targets example_registry3 [''Admin''] = [sockC1]"
    by (simp add: example_defs notify_targets_def entry_matches_def hasRole_def)
  have e: "failing_emit sockB1 ''n'' ''X'' = Some ''transport failure''"
    by (simp add: failing_emit_def sockB1_def)
  have ok: "\<forall>s\<in>set (notify_targets example_registry3 [''SuperAdmin'', ''Admin'']).
      accepting_emit s ''notification:blog'' ''X'' = None"
    by (simp add: accepting_emit_def)
  have ok2: "\<forall>s\<in>set (notify_targets example_registry3 [''Admin'']).
      failing_emit s ''notification:blog'' ''X'' = None"
    by (simp add: t2 failing_emit_def sockC1_def)
  from notifyRoles_propagates[where ac = example_registry3 and rs = "[''SuperAdmin'', ''Admin'']"
         and em = accepting_emit and ev = "''notification:blog''" and d = "''X''"] ok t
  have 1: "notifyRoles accepting_emit example_registry3 [''SuperAdmin'', ''Admin''] ''notification:blog'' ''X''
     = (map (\<lambda>s. (s, ''notification:blog'', ''X'')) [sockB1, sockB2, sockC1], None)"
    by simp
  from notifyRoles_propagates[where ac = example_registry3 and rs = "[''Admin'']"
         and em = failing_emit and ev = "''notification:blog''" and d = "''X''"] ok2 t2
  have 2: "notifyRoles failing_emit example_registry3 [''Admin''] ''notification:blog'' ''X''
     = (map (\<lambda>s. (s, ''notification:blog'', ''X'')) [sockC1], None)"
    by simp
  from notifyRoles_propagates[where ac = example_registry3 and rs = "[''SuperAdmin'', ''Admin'']"
         and pre = "[]" and s = sockB1 and post = "[sockB2, sockC1]"
         and em = failing_emit and ev = "''n''" and d = "''X''" and err = "''transport failure''"] t e
  have 3: "notifyRoles failing_emit example_registry3 [''SuperAdmin'', ''Admin''] ''n'' ''X''
     = (map (\<lambda>s. (s, ''n'', ''X'')) ([] @ [sockB1]), Some ''transport failure'')"
    by simp
  from 1 2 3 show ?thesis by simp
qed




lemma map_of_register:
  "map_of (register ac userId socket) =
     (map_of ac)(userId \<mapsto> (case map_of ac userId of None \<Rightarrow> [] | Some sockets \<Rightarrow> sockets) @ [socket])"
  by (auto simp: register_def Let_def update_conv' split: option.splits)




section \<open>The registry: properties\<close>

lemma distinct_register:
  "distinct (map fst ac) \<Longrightarrow> distinct (map fst (register ac userId socket))"
  by (auto simp: register_def Let_def distinct_update split: option.splits)

lemma map_of_unregister:
  "map_of (unregister ac userId socketId) =
     (let updatedSockets = filter (\<lambda>s. socket_id s \<noteq> socketId)
            (case map_of ac userId of None \<Rightarrow> [] | Some sockets \<Rightarrow> sockets)
      in if updatedSockets \<noteq> [] then (map_of ac)(userId \<mapsto> updatedSockets)
         else (map_of ac)(userId := None))"
  by (simp add: unregister_def Let_def update_conv' delete_conv')

lemma distinct_unregister:
  "distinct (map fst ac) \<Longrightarrow> distinct (map fst (unregister ac userId socketId))"
  by (simp add: unregister_def Let_def distinct_update distinct_delete)

lemma registry_inv_register:
  assumes "registry_inv ac L"
  shows "registry_inv (register ac userId socket) (live_step L (Register userId socket))"
  unfolding registry_inv_def
proof (intro conjI allI)
  show "distinct (map fst (register ac userId socket))"
    using assms by (simp add: registry_inv_def distinct_register)
next
  fix u
  from assms have u: "case map_of ac u of
        None \<Rightarrow> (\<forall>socketId. (u, socketId) \<notin> L)
      | Some sockets \<Rightarrow> sockets \<noteq> [] \<and> socket_id ` set sockets = {socketId. (u, socketId) \<in> L}"
    by (simp add: registry_inv_def)
  show "case map_of (register ac userId socket) u of
        None \<Rightarrow> (\<forall>socketId. (u, socketId) \<notin> live_step L (Register userId socket))
      | Some sockets \<Rightarrow> sockets \<noteq> [] \<and>
          socket_id ` set sockets = {socketId. (u, socketId) \<in> live_step L (Register userId socket)}"
  proof (cases "u = userId")
    case True
    with u show ?thesis
      by (auto simp: map_of_register split: option.splits)
  next
    case False
    with u show ?thesis
      by (auto simp: map_of_register split: option.splits)
  qed
qed

lemma registry_inv_unregister:
  assumes "registry_inv ac L"
  shows "registry_inv (unregister ac userId socketId) (live_step L (Unregister userId socketId))"
  unfolding registry_inv_def
proof (intro conjI allI)
  show "distinct (map fst (unregister ac userId socketId))"
    using assms by (simp add: registry_inv_def distinct_unregister)
next
  fix u
  from assms have u: "case map_of ac u of
        None \<Rightarrow> (\<forall>socketId. (u, socketId) \<notin> L)
      | Some sockets \<Rightarrow> sockets \<noteq> [] \<and> socket_id ` set sockets = {socketId. (u, socketId) \<in> L}"
    by (simp add: registry_inv_def)
  show "case map_of (unregister ac userId socketId) u of
        None \<Rightarrow> (\<forall>sid. (u, sid) \<notin> live_step L (Unregister userId socketId))
      | Some sockets \<Rightarrow> sockets \<noteq> [] \<and>
          socket_id ` set sockets = {sid. (u, sid) \<in> live_step L (Unregister userId socketId)}"
  proof (cases "u = userId")
    case False
    with u show ?thesis
      by (auto simp: map_of_unregister Let_def split: option.splits)
  next
    case True
    show ?thesis
    proof (cases "map_of ac userId")
      case None
      with u True show ?thesis
        by (auto simp: map_of_unregister Let_def)
    next
      case (Some sockets)
      with u True have s: "socket_id ` set sockets = {sid. (userId, sid) \<in> L}" by simp
      have f: "socket_id ` set (filter (\<lambda>s. socket_id s \<noteq> socketId) sockets)
          = {sid. (userId, sid) \<in> L} - {socketId}"
        using s by auto
      show ?thesis
      proof (cases "filter (\<lambda>s. socket_id s \<noteq> socketId) sockets = []")
        case True
        with f have "{sid. (userId, sid) \<in> L} - {socketId} = {}" by simp
        with True Some \<open>u = userId\<close> show ?thesis
          by (auto simp: map_of_unregister Let_def)
      next
        case False
        with f Some \<open>u = userId\<close> show ?thesis
          by (auto simp: map_of_unregister Let_def)
      qed
    qed
  qed
qed

lemma registry_inv_apply_ops: "registry_inv (apply_ops ops) (live ops)"
proof (induction ops rule: rev_induct)
  case Nil
  show ?case by (simp add: apply_ops_def live_def registry_inv_def)
next
  case (snoc op ops)
  show ?case
  proof (cases op)
    case (Register userId socket)
    with registry_inv_register[OF snoc.IH, of userId socket] show ?thesis
      by (simp add: apply_ops_def live_def)
  next
    case (Unregister userId socketId)
    with registry_inv_unregister[OF snoc.IH, of userId socketId] show ?thesis
      by (simp add: apply_ops_def live_def)
  qed
qed

lemma unregister_prunes:
  "filter (\<lambda>s. socket_id s \<noteq> socketId)
      (case map_of ac userId of None \<Rightarrow> [] | Some sockets \<Rightarrow> sockets) = []
   \<Longrightarrow> userId \<notin> fst ` set (unregister ac userId socketId)"
  by (simp add: unregister_def Let_def delete_notin_dom)

text \<open>
  Claim C4. After every sequence of registrations and removals, starting from the empty
  registry, a user id is a key exactly when the user has a live connection; the list under
  a key is never empty and holds exactly the user's live sockets; the keys are distinct;
  and a removal that leaves the user's list empty deletes the key in that same operation.
\<close>

theorem registry_invariant:
  "(userId \<in> fst ` set (apply_ops ops) \<longleftrightarrow> (\<exists>socketId. (userId, socketId) \<in> live ops)) \<and>
   (\<forall>sockets. map_of (apply_ops ops) userId = Some sockets \<longrightarrow>
      sockets \<noteq> [] \<and> socket_id ` set sockets = {socketId. (userId, socketId) \<in> live ops}) \<and>
   distinct (map fst (apply_ops ops)) \<and>
   (filter (\<lambda>s. socket_id s \<noteq> socketId)
       (case map_of (apply_ops ops) userId of None \<Rightarrow> [] | Some sockets \<Rightarrow> sockets) = []
      \<longrightarrow> userId \<notin> fst ` set (apply_ops (ops @ [Unregister userId socketId])))"
proof -
  have inv: "registry_inv (apply_ops ops) (live ops)" by (rule registry_inv_apply_ops)
  then have u: "case map_of (apply_ops ops) userId of
        None \<Rightarrow> (\<forall>socketId. (userId, socketId) \<notin> live ops)
      | Some sockets \<Rightarrow> sockets \<noteq> [] \<and>
          socket_id ` set sockets = {socketId. (userId, socketId) \<in> live ops}"
    by (simp add: registry_inv_def)
  have k: "userId \<in> fst ` set (apply_ops ops) \<longleftrightarrow> map_of (apply_ops ops) userId \<noteq> None"
    by (simp add: map_of_eq_None_iff)
  from u have 1: "userId \<in> fst ` set (apply_ops ops) \<longleftrightarrow> (\<exists>socketId. (userId, socketId) \<in> live ops)"
    unfolding k by (cases "map_of (apply_ops ops) userId") (auto simp: neq_Nil_conv)
  from u have 2: "\<forall>sockets. map_of (apply_ops ops) userId = Some sockets \<longrightarrow>
      sockets \<noteq> [] \<and> socket_id ` set sockets = {socketId. (userId, socketId) \<in> live ops}"
    by (cases "map_of (apply_ops ops) userId") simp_all
  from inv have 3: "distinct (map fst (apply_ops ops))" by (simp add: registry_inv_def)
  have 4: "filter (\<lambda>s. socket_id s \<noteq> socketId)
       (case map_of (apply_ops ops) userId of None \<Rightarrow> [] | Some sockets \<Rightarrow> sockets) = []
      \<longrightarrow> userId \<notin> fst ` set (apply_ops (ops @ [Unregister userId socketId]))"
    using unregister_prunes[of socketId "apply_ops ops" userId] by (simp add: apply_ops_def)
  from 1 2 3 4 show ?thesis by blast
qed

lemma example_ops_registry: "apply_ops example_ops = [(''B'', [sockB2])]"
  by (simp add: example_ops_def apply_ops_def register_def unregister_def
        sockA1_def sockB1_def sockB2_def)

lemma example_ops_live: "live example_ops = {(''B'', ''b2'')}"
  by (auto simp add: example_ops_def live_def sockA1_def sockB1_def sockB2_def)

theorem registry_invariant_witness:
  "''A'' \<notin> fst ` set (apply_ops example_ops)
   \<and> \<not> (\<exists>socketId. (''A'', socketId) \<in> live example_ops)
   \<and> ''B'' \<in> fst ` set (apply_ops example_ops)
   \<and> map_of (apply_ops example_ops) ''B'' = Some [sockB2]
   \<and> socket_id ` set [sockB2] = {socketId. (''B'', socketId) \<in> live example_ops}
   \<and> ''B'' \<notin> fst ` set (apply_ops (example_ops @ [Unregister ''B'' ''b2'']))"
  using registry_invariant[of "''A''" example_ops] registry_invariant[of "''B''" example_ops "''b2''"]
  by (simp add: example_ops_registry sockB2_def)

section \<open>The handshake: properties\<close>

text \<open>
  Claim C6, as stated, fails: \<open>verifyAccessToken\<close> throws on an expired token, and the
  \<open>catch\<close> of the middleware refuses the handshake with the message of that error, not
  with \<open>Authentication error: Invalid token\<close>.
\<close>

theorem handshake_expired_counterexample:
  "jwt_verify expired_env ''expired-token'' ''secret'' = Inl ''jwt expired''
   \<and> handshake expired_env initial_server sockNew
       = (Refused ''Authentication error: jwt expired'', initial_server)
   \<and> fst (handshake expired_env initial_server sockNew)
       \<noteq> Refused ''Authentication error: Invalid token''"
  by (simp add: handshake_def auth_middleware_def verifyAccessToken_def expired_env_def
        expired_verify_def sockNew_def)

text \<open>
  Claim C6, amended. A handshake whose token is present and fails verification with an
  error message is refused with \<open>Authentication error: \<close> followed by that message
  (\<open>Invalid access token\<close> when the error has none), and the server state, the registry
  with it, is unchanged.
\<close>

theorem handshake_verification_failure:
  assumes "handshake_token socket = Some token" and "token \<noteq> []"
    and "JWT_ACCESS_SECRET env = Some secret" and "secret \<noteq> []"
    and "jwt_verify env token secret = Inl message"
  shows "handshake env st socket =
           (Refused (''Authentication error: ''
                       @ (if message = [] then ''Invalid access token'' else message)), st)"
  using assms by (simp add: handshake_def auth_middleware_def verifyAccessToken_def)

theorem handshake_verification_failure_witness:
  "handshake_token sockNew = Some ''expired-token'' \<and> ''expired-token'' \<noteq> []
   \<and> JWT_ACCESS_SECRET expired_env = Some ''secret'' \<and> ''secret'' \<noteq> []
   \<and> jwt_verify expired_env ''expired-token'' ''secret'' = Inl ''jwt expired''
   \<and> handshake expired_env initial_server sockNew
       = (Refused ''Authentication error: jwt expired'', initial_server)"
proof -
  have 1: "handshake_token sockNew = Some ''expired-token''" by (simp add: sockNew_def)
  have 2: "''expired-token'' \<noteq> []" by simp
  have 3: "JWT_ACCESS_SECRET expired_env = Some ''secret''" by (simp add: expired_env_def)
  have 4: "''secret'' \<noteq> []" by simp
  have 5: "jwt_verify expired_env ''expired-token'' ''secret'' = Inl ''jwt expired''"
    by (simp add: expired_env_def expired_verify_def)
  from handshake_verification_failure[OF 1 2 3 4 5, of initial_server] 1 2 3 4 5
  show ?thesis by simp
qed

text \<open>When the middleware answers \<open>Authentication error: Invalid token\<close>.\<close>

lemma auth_middleware_invalid_token:
  "auth_middleware env socket = Inl ''Authentication error: Invalid token'' \<longleftrightarrow>
     (\<exists>token. handshake_token socket = Some token \<and> token \<noteq> [] \<and>
        (verifyAccessToken env token = Inl ''Invalid token''
         \<or> (\<exists>decoded. verifyAccessToken env token = Inr decoded \<and>
               (payload_userId decoded = None \<or> payload_userId decoded = Some []
                \<or> (\<exists>uid. payload_userId decoded = Some uid \<and> findById env uid = Inl ''Invalid token'')))))"
  by (auto simp: auth_middleware_def split: option.splits sum.splits if_splits)

section \<open>The heartbeat: properties\<close>

lemma foldl_disconnect_listeners [simp]:
  "disconnect_listeners (foldl disconnect_handler st ls) = disconnect_listeners st"
  by (induction ls arbitrary: st) (auto simp: clearInterval_def Let_def)

lemma foldl_disconnect_emitted [simp]:
  "emitted (foldl disconnect_handler st ls) = emitted st"
  by (induction ls arbitrary: st) (auto simp: clearInterval_def Let_def)

lemma set_delete: "set (AList.delete k al) = {p \<in> set al. fst p \<noteq> k}"
  by (auto simp: AList.delete_eq)

lemma foldl_disconnect_intervals:
  "set (intervals (foldl disconnect_handler st ls))
     = {p \<in> set (intervals st). fst p \<notin> (\<lambda>l. snd (snd l)) ` set ls}"
  by (induction ls arbitrary: st) (auto simp: clearInterval_def Let_def set_delete)

lemma timers_covered_step: "timers_covered st \<Longrightarrow> timers_covered (step st e)"
proof (cases e)
  case (Connection socket)
  assume "timers_covered st"
  then show ?thesis
    unfolding Connection timers_covered_def
    by (auto simp: connection_handler_def Let_def split: option.splits)
next
  case (Disconnect socketId)
  assume "timers_covered st"
  then show ?thesis
    unfolding Disconnect timers_covered_def
    by (auto simp: foldl_disconnect_intervals)
next
  case (IntervalFires t)
  assume "timers_covered st"
  then show ?thesis
    unfolding IntervalFires timers_covered_def
    by (auto simp: ping_callback_def split: option.splits)
qed

lemma timers_covered_run: "timers_covered st \<Longrightarrow> timers_covered (run st es)"
  unfolding run_def by (induction es arbitrary: st) (simp_all add: timers_covered_step)

lemma timers_covered_initial: "timers_covered initial_server"
  by (simp add: timers_covered_def initial_server_def)

lemma no_timer_after_disconnect:
  assumes "timers_covered st"
  shows "no_timer socketId (step st (Disconnect socketId))"
  unfolding no_timer_def
proof (clarify)
  fix t s
  assume in': "(t, s) \<in> set (intervals (step st (Disconnect (socket_id s))))"
    and sid: "socketId = socket_id s"
  let ?ls = "filter (\<lambda>listener. fst listener = socket_id s) (disconnect_listeners st)"
  from in' have a: "(t, s) \<in> set (intervals st)" and b: "t \<notin> (\<lambda>l. snd (snd l)) ` set ?ls"
    by (auto simp: foldl_disconnect_intervals)
  from a assms obtain userId where "(socket_id s, userId, t) \<in> set (disconnect_listeners st)"
    by (auto simp: timers_covered_def)
  then have "(socket_id s, userId, t) \<in> set ?ls" by simp
  then have "t \<in> (\<lambda>l. snd (snd l)) ` set ?ls" by force
  with b show False by contradiction
qed

lemma no_timer_step:
  assumes "no_timer socketId st" and "\<And>socket. e = Connection socket \<Longrightarrow> socket_id socket \<noteq> socketId"
  shows "no_timer socketId (step st e) \<and>
         (\<exists>pings. emitted (step st e) = emitted st @ pings \<and>
                   (\<forall>(socket, event)\<in>set pings. socket_id socket \<noteq> socketId))"
proof (cases e)
  case (Connection socket)
  with assms show ?thesis
    by (auto simp: no_timer_def connection_handler_def Let_def split: option.splits)
next
  case (Disconnect sid)
  with assms(1) show ?thesis
    by (auto simp: no_timer_def foldl_disconnect_intervals)
next
  case (IntervalFires t)
  show ?thesis
  proof (cases "map_of (intervals st) t")
    case None
    with IntervalFires assms(1) show ?thesis by simp
  next
    case (Some socket)
    then have "(t, socket) \<in> set (intervals st)" by (rule map_of_SomeD)
    with assms(1) have "socket_id socket \<noteq> socketId" by (auto simp: no_timer_def)
    with Some IntervalFires assms(1) show ?thesis
      by (auto simp: ping_callback_def no_timer_def)
  qed
qed

lemma no_timer_run:
  assumes "no_timer socketId st"
    and "\<forall>socket. Connection socket \<in> set es \<longrightarrow> socket_id socket \<noteq> socketId"
  shows "\<exists>pings. emitted (run st es) = emitted st @ pings \<and>
                 (\<forall>(socket, event)\<in>set pings. socket_id socket \<noteq> socketId)"
  using assms
proof (induction es arbitrary: st)
  case Nil
  show ?case by (simp add: run_def)
next
  case (Cons e es)
  from Cons.prems have e: "\<And>socket. e = Connection socket \<Longrightarrow> socket_id socket \<noteq> socketId"
    by auto
  from no_timer_step[OF Cons.prems(1) e]
  obtain p1 where nt: "no_timer socketId (step st e)"
    and p1: "emitted (step st e) = emitted st @ p1" "\<forall>(socket, event)\<in>set p1. socket_id socket \<noteq> socketId"
    by blast
  from Cons.prems(2) have "\<forall>socket. Connection socket \<in> set es \<longrightarrow> socket_id socket \<noteq> socketId"
    by simp
  from Cons.IH[OF nt this]
  obtain p2 where p2: "emitted (run (step st e) es) = emitted (step st e) @ p2"
      "\<forall>(socket, event)\<in>set p2. socket_id socket \<noteq> socketId"
    by blast
  have "emitted (run st (e # es)) = emitted st @ (p1 @ p2)"
    using p1(1) p2(1) by (simp add: run_def)
  moreover have "\<forall>(socket, event)\<in>set (p1 @ p2). socket_id socket \<noteq> socketId"
    using p1(2) p2(2) by auto
  ultimately show ?case by blast
qed

lemma run_append: "run st (es1 @ es2) = run (run st es1) es2"
  by (simp add: run_def)

text \<open>
  Claim C9. In every run of the server from its initial state, in any order of connections,
  timer firings and disconnects: once the \<open>disconnect\<close> listener of a socket has run, no
  ping is emitted to that socket, as long as the socket's id does not connect again (one
  connection has one lifecycle). The listener clears the timer before it touches the
  registry, within one callback.
\<close>

theorem no_ping_after_disconnect:
  assumes "\<forall>socket. Connection socket \<in> set es2 \<longrightarrow> socket_id socket \<noteq> socketId"
  shows "\<exists>pings. emitted (run initial_server (es1 @ Disconnect socketId # es2))
                   = emitted (run initial_server (es1 @ [Disconnect socketId])) @ pings
               \<and> (\<forall>(socket, event)\<in>set pings. socket_id socket \<noteq> socketId)"
proof -
  let ?st = "run initial_server es1"
  have "timers_covered ?st" by (simp add: timers_covered_run timers_covered_initial)
  then have nt: "no_timer socketId (step ?st (Disconnect socketId))"
    by (rule no_timer_after_disconnect)
  have 1: "run initial_server (es1 @ [Disconnect socketId]) = step ?st (Disconnect socketId)"
    by (simp add: run_def)
  have 2: "run initial_server (es1 @ Disconnect socketId # es2)
      = run (step ?st (Disconnect socketId)) es2"
    by (simp add: run_def)
  from no_timer_run[OF nt assms] show ?thesis
    unfolding 1 2 .
qed

lemma lifecycle_emitted:
  "emitted (run initial_server (lifecycle_before @ Disconnect ''b1'' # lifecycle_after))
     = [(sockB1, ''ping''), (sockA1, ''ping'')]"
  by (simp add: lifecycle_before_def lifecycle_after_def run_def initial_server_def
        connection_handler_def ping_callback_def clearInterval_def register_def unregister_def
        sockA1_def sockB1_def editorUser_def superAdminUser_def Let_def)

theorem no_ping_after_disconnect_witness:
  "emitted (run initial_server (lifecycle_before @ Disconnect ''b1'' # lifecycle_after))
     = emitted (run initial_server (lifecycle_before @ [Disconnect ''b1'']))
         @ [(sockA1, ''ping'')]
   \<and> socket_id sockA1 \<noteq> ''b1''"
proof -
  have h: "\<forall>socket. Connection socket \<in> set lifecycle_after \<longrightarrow> socket_id socket \<noteq> ''b1''"
    by (simp add: lifecycle_after_def sockA1_def)
  have b: "emitted (run initial_server (lifecycle_before @ [Disconnect ''b1'']))
      = [(sockB1, ''ping'')]"
    by (simp add: lifecycle_before_def run_def initial_server_def
        connection_handler_def ping_callback_def clearInterval_def register_def unregister_def
        sockB1_def superAdminUser_def Let_def)
  from no_ping_after_disconnect[OF h, of lifecycle_before] b lifecycle_emitted
  show ?thesis by (simp add: sockA1_def)
qed

end
